theory Spec2Isabelle
  imports Main
begin

section \<open>The session store of \<open>pkg/temporary/sessionmanager\<close>\<close>

text \<open>
  The development embeds \<^verbatim>\<open>session_manager_mock.go\<close>: the two Go maps of the
  \<^verbatim>\<open>SessionManager\<close> struct become HOL maps, every method becomes a function from the
  store to its result, and a nil pointer dereference (the only way a method of this file can
  terminate abnormally) becomes the left summand of the result.
\<close>

subsection \<open>Data\<close>

datatype panic = NilPointerDereference

text \<open>
  Modelled from the spec: the declaration of \<^verbatim>\<open>PeerSession\<close> is not part of the sources at
  hand; only its uses are. The methods read four fields: \<^verbatim>\<open>SessionNonce\<close> and
  \<^verbatim>\<open>PeerIdentityKey\<close> (both \<^verbatim>\<open>*string\<close>, compared with nil and dereferenced),
  \<^verbatim>\<open>IsAuthenticated\<close> (a bool) and \<^verbatim>\<open>LastUpdate\<close> (a \<^verbatim>\<open>time.Time\<close>, compared with
  \<^verbatim>\<open>After\<close>). A \<^verbatim>\<open>*string\<close> is an optional string (\<open>None\<close> is nil; Go strings are
  immutable and no method writes through these pointers; what a caller's write through
  them does is the subject of the memory model further down), an instant is a point of the
  integer time line (\<^verbatim>\<open>a.After(b)\<close> is \<open>b < a\<close>), and every other field, which the store
  carries along without looking at it, is the component \<open>Other\<close>.
\<close>

record 'x PeerSession =
  SessionNonce :: "string option"
  PeerIdentityKey :: "string option"
  IsAuthenticated :: bool
  LastUpdate :: int
  Other :: 'x

text \<open>
  The struct \<^verbatim>\<open>SessionManager\<close> without its mutex: \<open>sessions\<close> maps a sessionNonce to
  a session (held by value), \<open>identityKeyToSessions\<close> maps a peerIdentityKey to the slice
  of sessionNonces, in insertion order and with repetitions.
\<close>

record 'x SessionManager =
  sessions :: "string \<rightharpoonup> 'x PeerSession"
  identityKeyToSessions :: "string \<rightharpoonup> string list"

definition NewSessionManager :: "'x SessionManager" where
  "NewSessionManager = \<lparr>sessions = Map.empty, identityKeyToSessions = Map.empty\<rparr>"

subsection \<open>Adding\<close>

text \<open>
  \<^verbatim>\<open>addSessionByIdentityKey\<close> dereferences \<^verbatim>\<open>session.PeerIdentityKey\<close> for the map index
  and \<^verbatim>\<open>session.SessionNonce\<close> for the value, in both branches, before the map is written:
  a nil pointer panics and leaves the store as it was.
\<close>

definition addSessionByIdentityKey ::
  "'x PeerSession \<Rightarrow> 'x SessionManager \<Rightarrow> panic + 'x SessionManager" where
  "addSessionByIdentityKey session m =
     (case PeerIdentityKey session of
        None \<Rightarrow> Inl NilPointerDereference
      | Some key \<Rightarrow>
          (case identityKeyToSessions m key of
             Some sessionNonces \<Rightarrow>
               (case SessionNonce session of
                  None \<Rightarrow> Inl NilPointerDereference
                | Some nonce \<Rightarrow>
                    Inr (m\<lparr>identityKeyToSessions :=
                           (identityKeyToSessions m)(key \<mapsto> sessionNonces @ [nonce])\<rparr>))
           | None \<Rightarrow>
               (case SessionNonce session of
                  None \<Rightarrow> Inl NilPointerDereference
                | Some nonce \<Rightarrow>
                    Inr (m\<lparr>identityKeyToSessions :=
                           (identityKeyToSessions m)(key \<mapsto> [nonce])\<rparr>))))"

definition AddSession ::
  "'x PeerSession \<Rightarrow> 'x SessionManager \<Rightarrow> panic + 'x SessionManager" where
  "AddSession session m =
     (let m1 = (case SessionNonce session of
                  Some nonce \<Rightarrow> m\<lparr>sessions := (sessions m)(nonce \<mapsto> session)\<rparr>
                | None \<Rightarrow> m)
      in if PeerIdentityKey session \<noteq> None then addSessionByIdentityKey session m1
         else Inr m1)"

definition UpdateSession ::
  "'x PeerSession \<Rightarrow> 'x SessionManager \<Rightarrow> panic + 'x SessionManager" where
  "UpdateSession session m = AddSession session m"

subsection \<open>Looking up\<close>

text \<open>
  The loop of \<^verbatim>\<open>getBestSession\<close>, with the variable \<^verbatim>\<open>bestSession\<close> as accumulator
  (\<open>None\<close> is nil). Each iteration copies the stored record into a fresh local, so the
  accumulator holds a record value.
\<close>

fun getBestSession_loop ::
  "'x SessionManager \<Rightarrow> 'x PeerSession option \<Rightarrow> string list \<Rightarrow> 'x PeerSession option" where
  "getBestSession_loop m bestSession [] = bestSession"
| "getBestSession_loop m bestSession (sessionNonce # rest) =
     (case sessions m sessionNonce of
        None \<Rightarrow> getBestSession_loop m bestSession rest
      | Some session \<Rightarrow>
          (case bestSession of
             None \<Rightarrow> getBestSession_loop m (Some session) rest
           | Some best \<Rightarrow>
               if IsAuthenticated session \<and> \<not> IsAuthenticated best
               then getBestSession_loop m (Some session) rest
               else if IsAuthenticated session = IsAuthenticated best
                       \<and> LastUpdate best < LastUpdate session
               then getBestSession_loop m (Some session) rest
               else getBestSession_loop m (Some best) rest))"

definition getBestSession ::
  "'x SessionManager \<Rightarrow> string list \<Rightarrow> 'x PeerSession option" where
  "getBestSession m sessionNonces = getBestSession_loop m None sessionNonces"

text \<open>
  \<^verbatim>\<open>GetSession\<close> returns a pointer to a local copy of a record, or nil; the value here is
  the record the pointer leads to, \<open>None\<close> for nil.
\<close>

definition GetSession :: "string \<Rightarrow> 'x SessionManager \<Rightarrow> 'x PeerSession option" where
  "GetSession identifier m =
     (case sessions m identifier of
        Some session \<Rightarrow> Some session
      | None \<Rightarrow>
          (case identityKeyToSessions m identifier of
             None \<Rightarrow> None
           | Some sessionNonces \<Rightarrow> getBestSession m sessionNonces))"

definition HasSession :: "string \<Rightarrow> 'x SessionManager \<Rightarrow> bool" where
  "HasSession identifier m =
     (case sessions m identifier of
        Some session \<Rightarrow> True
      | None \<Rightarrow>
          (case identityKeyToSessions m identifier of
             None \<Rightarrow> False
           | Some nonces \<Rightarrow> 0 < length nonces))"

subsection \<open>Removing\<close>

text \<open>
  The loop of \<^verbatim>\<open>removeSessionNonce\<close>, with \<^verbatim>\<open>newSlice\<close> as accumulator. The Go code
  builds \<^verbatim>\<open>newSlice\<close> in the memory of \<^verbatim>\<open>slice\<close>; it writes position \<open>j\<close> only after it
  has read position \<open>i \<ge> j\<close>, so every element is read before it can be overwritten and the
  result is the one computed on values.
\<close>

fun removeSessionNonce_loop :: "string list \<Rightarrow> string list \<Rightarrow> string \<Rightarrow> string list" where
  "removeSessionNonce_loop newSlice [] target = newSlice"
| "removeSessionNonce_loop newSlice (str # rest) target =
     (if str \<noteq> target then removeSessionNonce_loop (newSlice @ [str]) rest target
      else removeSessionNonce_loop newSlice rest target)"

definition removeSessionNonce :: "string list \<Rightarrow> string \<Rightarrow> string list" where
  "removeSessionNonce slice target = removeSessionNonce_loop [] slice target"

definition RemoveSession ::
  "'x PeerSession \<Rightarrow> 'x SessionManager \<Rightarrow> panic + 'x SessionManager" where
  "RemoveSession session m =
     (let m1 = (case SessionNonce session of
                  Some nonce \<Rightarrow> m\<lparr>sessions := (sessions m)(nonce := None)\<rparr>
                | None \<Rightarrow> m)
      in case PeerIdentityKey session of
           None \<Rightarrow> Inr m1
         | Some key \<Rightarrow>
             (case identityKeyToSessions m1 key of
                None \<Rightarrow> Inr m1
              | Some sessionNonces \<Rightarrow>
                  (case SessionNonce session of
                     None \<Rightarrow> Inl NilPointerDereference
                   | Some nonce \<Rightarrow>
                       (let updatedNonces = removeSessionNonce sessionNonces nonce
                        in if length updatedNonces = 0
                           then Inr (m1\<lparr>identityKeyToSessions :=
                                        (identityKeyToSessions m1)(key := None)\<rparr>)
                           else Inr (m1\<lparr>identityKeyToSessions :=
                                        (identityKeyToSessions m1)(key \<mapsto> updatedNonces)\<rparr>)))))"

subsection \<open>Sequences of calls\<close>

text \<open>
  A caller's sequence of mutating calls; it stops at the first panic.
\<close>

datatype 'x call = Add "'x PeerSession" | Update "'x PeerSession" | Remove "'x PeerSession"

fun perform :: "'x call \<Rightarrow> 'x SessionManager \<Rightarrow> panic + 'x SessionManager" where
  "perform (Add session) m = AddSession session m"
| "perform (Update session) m = UpdateSession session m"
| "perform (Remove session) m = RemoveSession session m"

fun run :: "'x call list \<Rightarrow> 'x SessionManager \<Rightarrow> panic + 'x SessionManager" where
  "run [] m = Inr m"
| "run (c # cs) m = (case perform c m of Inl e \<Rightarrow> Inl e | Inr m' \<Rightarrow> run cs m')"


section \<open>Notions used to state the properties\<close>

text \<open>The handle-set stored for an identity, empty when the identity has no entry.\<close>

definition handles_of :: "'x SessionManager \<Rightarrow> string \<Rightarrow> string list" where
  "handles_of m key = (case identityKeyToSessions m key of None \<Rightarrow> [] | Some ns \<Rightarrow> ns)"

text \<open>
  The two tests of the loop body that replace \<^verbatim>\<open>bestSession\<close> by the current session:
  \<open>outranks c b\<close> says that candidate \<open>c\<close> replaces the running best \<open>b\<close>.
\<close>

definition outranks :: "'x PeerSession \<Rightarrow> 'x PeerSession \<Rightarrow> bool" where
  "outranks c b \<longleftrightarrow>
     (IsAuthenticated c \<and> \<not> IsAuthenticated b)
     \<or> (IsAuthenticated c = IsAuthenticated b \<and> LastUpdate b < LastUpdate c)"

subsection \<open>The selection as the specification words it\<close>

text \<open>
  The specification describes the selection in three steps: resolve each handle of the set
  and skip those without a record; no candidate gives absence; otherwise fold the
  candidates pairwise, left to right, preferring the authenticated one, then the one with
  the later \<open>lastUpdate\<close>, and retaining the earlier-encountered one when the timestamps
  are equal. These definitions follow those words, not the code.
\<close>

definition spec_candidates :: "'x SessionManager \<Rightarrow> string list \<Rightarrow> 'x PeerSession list" where
  "spec_candidates m handles = List.map_filter (sessions m) handles"

definition spec_prefer :: "'x PeerSession \<Rightarrow> 'x PeerSession \<Rightarrow> 'x PeerSession" where
  "spec_prefer earlier later =
     (if IsAuthenticated later \<noteq> IsAuthenticated earlier
      then (if IsAuthenticated later then later else earlier)
      else if LastUpdate earlier < LastUpdate later then later
      else earlier)"

definition spec_best :: "'x SessionManager \<Rightarrow> string list \<Rightarrow> 'x PeerSession option" where
  "spec_best m handles =
     (case spec_candidates m handles of
        [] \<Rightarrow> None
      | c # cs \<Rightarrow> Some (foldl spec_prefer c cs))"

subsection \<open>Consistency of the two indexes\<close>

text \<open>Every handle in an identity's handle-set has an entry in the handle index.\<close>

definition consistent :: "'x SessionManager \<Rightarrow> bool" where
  "consistent m \<longleftrightarrow>
     (\<forall>key nonces. identityKeyToSessions m key = Some nonces
        \<longrightarrow> (\<forall>nonce\<in>set nonces. sessions m nonce \<noteq> None))"

text \<open>
  The handle of \<open>session\<close>, when it has one, occurs in no handle-set but the one of the
  session's own peerIdentityKey.
\<close>

definition indexed_only_under :: "'x PeerSession \<Rightarrow> 'x SessionManager \<Rightarrow> bool" where
  "indexed_only_under session m \<longleftrightarrow>
     (\<forall>nonce key nonces.
        SessionNonce session = Some nonce \<longrightarrow> identityKeyToSessions m key = Some nonces
          \<longrightarrow> nonce \<in> set nonces \<longrightarrow> PeerIdentityKey session = Some key)"

text \<open>
  Along a sequence of calls, every \<^verbatim>\<open>RemoveSession\<close> is made in a store where the removed
  session is indexed under its own identity only.
\<close>

fun removals_matched :: "'x call list \<Rightarrow> 'x SessionManager \<Rightarrow> bool" where
  "removals_matched [] m = True"
| "removals_matched (c # cs) m =
     ((case c of Remove session \<Rightarrow> indexed_only_under session m | _ \<Rightarrow> True)
      \<and> (case perform c m of Inl e \<Rightarrow> True | Inr m' \<Rightarrow> removals_matched cs m'))"

subsection \<open>The store in memory\<close>

text \<open>
  The value model above follows each \<^verbatim>\<open>*string\<close> to its string. For what a caller can do
  with the pointer that \<^verbatim>\<open>GetSession\<close> returns, the pointers themselves matter:
  \<^verbatim>\<open>GetSession\<close> returns \<^verbatim>\<open>&session\<close>, the address of a local variable holding a copy of
  the struct found in the map, and a copy of a struct copies its pointer fields, not the
  strings they point to.
\<close>

text \<open>
  Modelled from the spec: the struct \<^verbatim>\<open>PeerSession\<close> (its declaration is not among the
  sources) as it lies in memory, with the same five components as the record
  \<open>PeerSession\<close>; the two \<^verbatim>\<open>*string\<close> fields hold the address of a string variable, or
  \<open>None\<close> for nil.
\<close>

record 'x PeerSession_mem =
  SessionNonce_ptr :: "nat option"
  PeerIdentityKey_ptr :: "nat option"
  IsAuthenticated_mem :: bool
  LastUpdate_mem :: int
  Other_mem :: 'x

text \<open>
  The memory a caller shares with the store: the two maps of the \<^verbatim>\<open>SessionManager\<close>,
  the string variables that the \<^verbatim>\<open>*string\<close> fields point to, and the \<^verbatim>\<open>PeerSession\<close>
  variables whose address has been taken. An address is a position in the list.
\<close>

record 'x memory =
  sessions_mem :: "string \<rightharpoonup> 'x PeerSession_mem"
  identityKeyToSessions_mem :: "string \<rightharpoonup> string list"
  string_vars :: "string list"
  session_vars :: "'x PeerSession_mem list"

text \<open>
  \<^verbatim>\<open>getBestSession\<close> on the memory. Each iteration that finds a record copies it into a new
  local variable \<^verbatim>\<open>session\<close>; \<^verbatim>\<open>bestSession\<close> is the address of one of these variables
  (\<open>None\<close> is nil) and is read through for the comparisons.
\<close>

fun getBestSession_mem_loop ::
  "'x memory \<Rightarrow> nat option \<Rightarrow> string list \<Rightarrow> nat option \<times> 'x memory" where
  "getBestSession_mem_loop \<mu> bestSession [] = (bestSession, \<mu>)"
| "getBestSession_mem_loop \<mu> bestSession (sessionNonce # rest) =
     (case sessions_mem \<mu> sessionNonce of
        None \<Rightarrow> getBestSession_mem_loop \<mu> bestSession rest
      | Some session \<Rightarrow>
          (let here = length (session_vars \<mu>);
               \<mu>' = \<mu>\<lparr>session_vars := session_vars \<mu> @ [session]\<rparr>
           in case bestSession of
                None \<Rightarrow> getBestSession_mem_loop \<mu>' (Some here) rest
              | Some best \<Rightarrow>
                  if IsAuthenticated_mem session
                     \<and> \<not> IsAuthenticated_mem (session_vars \<mu>' ! best)
                  then getBestSession_mem_loop \<mu>' (Some here) rest
                  else if IsAuthenticated_mem session = IsAuthenticated_mem (session_vars \<mu>' ! best)
                          \<and> LastUpdate_mem (session_vars \<mu>' ! best) < LastUpdate_mem session
                  then getBestSession_mem_loop \<mu>' (Some here) rest
                  else getBestSession_mem_loop \<mu>' (Some best) rest))"

definition getBestSession_mem :: "'x memory \<Rightarrow> string list \<Rightarrow> nat option \<times> 'x memory" where
  "getBestSession_mem \<mu> sessionNonces = getBestSession_mem_loop \<mu> None sessionNonces"

text \<open>
  \<^verbatim>\<open>GetSession\<close> and \<^verbatim>\<open>HasSession\<close> on the memory: they return their result and the
  memory they leave behind.
\<close>

definition GetSession_mem :: "string \<Rightarrow> 'x memory \<Rightarrow> nat option \<times> 'x memory" where
  "GetSession_mem identifier \<mu> =
     (case sessions_mem \<mu> identifier of
        Some session \<Rightarrow>
          (Some (length (session_vars \<mu>)), \<mu>\<lparr>session_vars := session_vars \<mu> @ [session]\<rparr>)
      | None \<Rightarrow>
          (case identityKeyToSessions_mem \<mu> identifier of
             None \<Rightarrow> (None, \<mu>)
           | Some sessionNonces \<Rightarrow> getBestSession_mem \<mu> sessionNonces))"

definition HasSession_mem :: "string \<Rightarrow> 'x memory \<Rightarrow> bool \<times> 'x memory" where
  "HasSession_mem identifier \<mu> =
     (case sessions_mem \<mu> identifier of
        Some session \<Rightarrow> (True, \<mu>)
      | None \<Rightarrow>
          (case identityKeyToSessions_mem \<mu> identifier of
             None \<Rightarrow> (False, \<mu>)
           | Some nonces \<Rightarrow> (0 < length nonces, \<mu>)))"

text \<open>
  What the caller sees: a record with its two pointer fields followed (\<open>deref_session\<close>),
  the record an optional pointer leads to (\<open>pointee\<close>), and the store with every pointer
  followed (\<open>value_store\<close>), which is the store of the first part of this theory.
\<close>

definition deref_session :: "string list \<Rightarrow> 'x PeerSession_mem \<Rightarrow> 'x PeerSession" where
  "deref_session strs r =
     \<lparr>SessionNonce = map_option (\<lambda>a. strs ! a) (SessionNonce_ptr r),
      PeerIdentityKey = map_option (\<lambda>a. strs ! a) (PeerIdentityKey_ptr r),
      IsAuthenticated = IsAuthenticated_mem r,
      LastUpdate = LastUpdate_mem r,
      Other = Other_mem r\<rparr>"

definition value_store :: "'x memory \<Rightarrow> 'x SessionManager" where
  "value_store \<mu> =
     \<lparr>sessions = (\<lambda>nonce. map_option (deref_session (string_vars \<mu>)) (sessions_mem \<mu> nonce)),
      identityKeyToSessions = identityKeyToSessions_mem \<mu>\<rparr>"

definition pointee :: "nat option \<times> 'x memory \<Rightarrow> 'x PeerSession option" where
  "pointee r =
     (case fst r of
        None \<Rightarrow> None
      | Some a \<Rightarrow> Some (deref_session (string_vars (snd r)) (session_vars (snd r) ! a)))"

text \<open>
  The two ways a caller can write through a pointer \<open>p\<close> it was given: assign to fields of
  the record (\<^verbatim>\<open>p.Field = v\<close>, any function on the record variable), or assign to the
  string that \<^verbatim>\<open>p.SessionNonce\<close> points to (\<^verbatim>\<open>*p.SessionNonce = v\<close>), which panics on
  nil.
\<close>

definition assign_fields ::
  "nat \<Rightarrow> ('x PeerSession_mem \<Rightarrow> 'x PeerSession_mem) \<Rightarrow> 'x memory \<Rightarrow> 'x memory" where
  "assign_fields p f \<mu> = \<mu>\<lparr>session_vars := (session_vars \<mu>)[p := f (session_vars \<mu> ! p)]\<rparr>"

definition assign_nonce_pointee :: "nat \<Rightarrow> string \<Rightarrow> 'x memory \<Rightarrow> panic + 'x memory" where
  "assign_nonce_pointee p v \<mu> =
     (case SessionNonce_ptr (session_vars \<mu> ! p) of
        None \<Rightarrow> Inl NilPointerDereference
      | Some a \<Rightarrow> Inr (\<mu>\<lparr>string_vars := (string_vars \<mu>)[a := v]\<rparr>))"

subsection \<open>Sessions and stores of the examples\<close>

definition s_alice :: "unit PeerSession" where
  "s_alice = \<lparr>SessionNonce = Some ''n1'', PeerIdentityKey = Some ''alice'',
              IsAuthenticated = True, LastUpdate = 1, Other = ()\<rparr>"

text \<open>The session of handle \<open>n1\<close> once its identity has changed to \<open>bob\<close>.\<close>

definition s_bob :: "unit PeerSession" where
  "s_bob = \<lparr>SessionNonce = Some ''n1'', PeerIdentityKey = Some ''bob'',
            IsAuthenticated = True, LastUpdate = 2, Other = ()\<rparr>"

text \<open>A session of \<open>bob\<close> whose handle is the string \<open>alice\<close>.\<close>

definition s_handle_alice :: "unit PeerSession" where
  "s_handle_alice = \<lparr>SessionNonce = Some ''alice'', PeerIdentityKey = Some ''bob'',
                     IsAuthenticated = True, LastUpdate = 3, Other = ()\<rparr>"

definition early_authenticated :: "unit PeerSession" where
  "early_authenticated = \<lparr>SessionNonce = Some ''n2'', PeerIdentityKey = Some ''alice'',
                          IsAuthenticated = True, LastUpdate = 1, Other = ()\<rparr>"

definition late_unauthenticated :: "unit PeerSession" where
  "late_unauthenticated = \<lparr>SessionNonce = Some ''n3'', PeerIdentityKey = Some ''alice'',
                           IsAuthenticated = False, LastUpdate = 2, Other = ()\<rparr>"

text \<open>The same unauthenticated session under a handle that is the string \<open>alice\<close>.\<close>

definition late_unauthenticated_named_alice :: "unit PeerSession" where
  "late_unauthenticated_named_alice =
     \<lparr>SessionNonce = Some ''alice'', PeerIdentityKey = Some ''alice'',
      IsAuthenticated = False, LastUpdate = 2, Other = ()\<rparr>"

definition two_for_alice :: "unit SessionManager" where
  "two_for_alice =
     \<lparr>sessions = [''n3'' \<mapsto> late_unauthenticated, ''n2'' \<mapsto> early_authenticated],
      identityKeyToSessions = [''alice'' \<mapsto> [''n3'', ''n2'']]\<rparr>"

text \<open>A store in which the handles of \<open>carol\<close> have no record any more.\<close>

definition stale_for_carol :: "unit SessionManager" where
  "stale_for_carol =
     \<lparr>sessions = [''n2'' \<mapsto> early_authenticated],
      identityKeyToSessions = [''alice'' \<mapsto> [''n2''], ''carol'' \<mapsto> [''n7'', ''n8'']]\<rparr>"

text \<open>
  The memory after AddSession of the session of \<open>alice\<close>: the caller's two strings are the
  variables 0 and 1, and the stored record points to them.
\<close>

definition mem_alice :: "unit memory" where
  "mem_alice =
     \<lparr>sessions_mem = [''n1'' \<mapsto> \<lparr>SessionNonce_ptr = Some 0, PeerIdentityKey_ptr = Some 1,
                                  IsAuthenticated_mem = True, LastUpdate_mem = 1, Other_mem = ()\<rparr>],
      identityKeyToSessions_mem = [''alice'' \<mapsto> [''n1'']],
      string_vars = [''n1'', ''alice''],
      session_vars = []\<rparr>"

section \<open>Basic facts\<close>

lemmas ops_defs = NewSessionManager_def UpdateSession_def AddSession_def
  addSessionByIdentityKey_def RemoveSession_def removeSessionNonce_def

subsection \<open>The write operations in closed form\<close>

lemma removeSessionNonce_loop_filter:
  "removeSessionNonce_loop newSlice slice target
     = newSlice @ filter (\<lambda>str. str \<noteq> target) slice"
  by (induction slice arbitrary: newSlice) simp_all

lemma removeSessionNonce_filter:
  "removeSessionNonce slice target = filter (\<lambda>str. str \<noteq> target) slice"
  by (simp add: removeSessionNonce_def removeSessionNonce_loop_filter)

lemma AddSession_both:
  assumes "SessionNonce S = Some n" and "PeerIdentityKey S = Some k"
  shows "AddSession S m =
           Inr \<lparr>sessions = (sessions m)(n \<mapsto> S),
                identityKeyToSessions = (identityKeyToSessions m)(k \<mapsto> handles_of m k @ [n])\<rparr>"
  using assms
  by (simp add: AddSession_def addSessionByIdentityKey_def handles_of_def split: option.splits)

lemma RemoveSession_both:
  assumes "SessionNonce S = Some n" and "PeerIdentityKey S = Some k"
  shows "RemoveSession S m =
           Inr \<lparr>sessions = (sessions m)(n := None),
                identityKeyToSessions =
                  (identityKeyToSessions m)
                    (k := (if filter (\<lambda>str. str \<noteq> n) (handles_of m k) = [] then None
                           else Some (filter (\<lambda>str. str \<noteq> n) (handles_of m k))))\<rparr>"
  using assms
  by (auto simp add: RemoveSession_def removeSessionNonce_filter handles_of_def Let_def
        fun_upd_idem split: option.splits)

text \<open>When exactly the two write operations end in a panic.\<close>

lemma AddSession_panics_iff:
  "AddSession S m = Inl e \<longleftrightarrow> SessionNonce S = None \<and> PeerIdentityKey S \<noteq> None"
  by (cases e)
     (auto simp: AddSession_def addSessionByIdentityKey_def split: option.splits)

lemma RemoveSession_panics_iff:
  "RemoveSession S m = Inl e \<longleftrightarrow>
     SessionNonce S = None
     \<and> (\<exists>k. PeerIdentityKey S = Some k \<and> identityKeyToSessions m k \<noteq> None)"
  by (cases e)
     (auto simp: RemoveSession_def Let_def split: option.splits)



subsection \<open>The selection loop\<close>

lemma loop_step:
  "getBestSession_loop m (Some b) (n # rest) =
     (case sessions m n of
        None \<Rightarrow> getBestSession_loop m (Some b) rest
      | Some c \<Rightarrow> getBestSession_loop m (Some (if outranks c b then c else b)) rest)"
  by (auto simp: outranks_def split: option.splits)

lemma loop_None_iff:
  "getBestSession_loop m best ns = None
     \<longleftrightarrow> best = None \<and> (\<forall>n\<in>set ns. sessions m n = None)"
  by (induction ns arbitrary: best) (auto split: option.splits)

lemma loop_member:
  "getBestSession_loop m best ns = Some r \<Longrightarrow>
     best = Some r \<or> (\<exists>n\<in>set ns. sessions m n = Some r)"
  by (induction ns arbitrary: best) (auto split: option.splits if_splits)

lemma not_outranks_trans:
  "\<not> outranks a b \<Longrightarrow> \<not> outranks b c \<Longrightarrow> \<not> outranks a c"
  by (auto simp: outranks_def)

text \<open>The running best is never outranked by the result, nor is any candidate.\<close>

lemma loop_best_kept:
  "getBestSession_loop m (Some b) ns = Some r \<Longrightarrow> \<not> outranks b r"
proof (induction ns arbitrary: b)
  case Nil
  then show ?case by (simp add: outranks_def)
next
  case (Cons n ns)
  show ?case
  proof (cases "sessions m n")
    case None
    with Cons show ?thesis by simp
  next
    case (Some c)
    with Cons.prems
    have *: "getBestSession_loop m (Some (if outranks c b then c else b)) ns = Some r"
      by (simp only: loop_step option.case)
    show ?thesis
    proof (cases "outranks c b")
      case True
      with * have "\<not> outranks c r" using Cons.IH by simp
      moreover from True have "\<not> outranks b c" by (auto simp: outranks_def)
      ultimately show ?thesis using not_outranks_trans by blast
    next
      case False
      with * show ?thesis using Cons.IH by simp
    qed
  qed
qed

lemma loop_maximal:
  "getBestSession_loop m best ns = Some r \<Longrightarrow> n \<in> set ns \<Longrightarrow> sessions m n = Some c
     \<Longrightarrow> \<not> outranks c r"
proof (induction ns arbitrary: best)
  case Nil
  then show ?case by simp
next
  case (Cons a ns)
  show ?case
  proof (cases "n = a")
    case True
    with Cons.prems show ?thesis
      by (cases best) (auto dest: loop_best_kept split: if_splits simp: outranks_def)
  next
    case False
    with Cons show ?thesis
      by (auto split: option.splits if_splits)
  qed
qed

text \<open>
  Through the identity index, an authenticated candidate in the handle-set makes the
  answer an authenticated session, whatever the timestamps.
\<close>

lemma GetSession_prefers_authenticated:
  assumes "sessions m k = None" and "identityKeyToSessions m k = Some nonces"
    and "n \<in> set nonces" and "sessions m n = Some c" and "IsAuthenticated c"
  shows "\<exists>r. GetSession k m = Some r \<and> IsAuthenticated r"
proof -
  have G: "GetSession k m = getBestSession_loop m None nonces"
    using assms(1,2) by (simp add: GetSession_def getBestSession_def)
  have "getBestSession_loop m None nonces \<noteq> None"
    using assms(3,4) by (auto simp: loop_None_iff)
  then obtain r where r: "getBestSession_loop m None nonces = Some r" by auto
  from loop_maximal [OF r assms(3,4)] have "\<not> outranks c r" .
  with assms(5) have "IsAuthenticated r" by (auto simp: outranks_def)
  with G r show ?thesis by simp
qed

subsection \<open>The loop and the fold of the specification\<close>

lemma spec_prefer_outranks: "spec_prefer b c = (if outranks c b then c else b)"
  by (auto simp: spec_prefer_def outranks_def)

lemma spec_candidates_Cons:
  "spec_candidates m (n # ns) =
     (case sessions m n of
        None \<Rightarrow> spec_candidates m ns
      | Some c \<Rightarrow> c # spec_candidates m ns)"
  by (simp add: spec_candidates_def split: option.splits)

lemma loop_Some_fold:
  "getBestSession_loop m (Some b) ns = Some (foldl spec_prefer b (spec_candidates m ns))"
proof (induction ns arbitrary: b)
  case Nil
  show ?case by (simp add: spec_candidates_def)
next
  case (Cons n ns)
  show ?case
    by (cases "sessions m n")
       (simp_all only: loop_step spec_candidates_Cons option.case Cons.IH
          foldl_Cons spec_prefer_outranks)
qed

lemma loop_None_fold: "getBestSession_loop m None ns = spec_best m ns"
proof (induction ns)
  case Nil
  show ?case by (simp add: spec_best_def spec_candidates_def)
next
  case (Cons n ns)
  show ?case
  proof (cases "sessions m n")
    case None
    with Cons show ?thesis by (simp add: spec_best_def spec_candidates_Cons)
  next
    case (Some c)
    then show ?thesis by (simp add: spec_best_def spec_candidates_Cons loop_Some_fold)
  qed
qed

subsection \<open>Preservation of consistency\<close>

lemma consistent_New: "consistent NewSessionManager"
  by (simp add: consistent_def NewSessionManager_def)

lemma AddSession_consistent:
  assumes "AddSession S m = Inr m'" and "consistent m"
  shows "consistent m'"
proof (cases "SessionNonce S")
  case None
  with assms show ?thesis
    by (cases "PeerIdentityKey S")
       (auto simp: AddSession_def addSessionByIdentityKey_def split: option.splits)
next
  case n: (Some n)
  show ?thesis
  proof (cases "PeerIdentityKey S")
    case None
    with n assms(1) have "m' = m\<lparr>sessions := (sessions m)(n \<mapsto> S)\<rparr>"
      by (simp add: AddSession_def)
    with assms(2) show ?thesis by (auto simp: consistent_def)
  next
    case (Some k)
    from AddSession_both [OF n Some, of m] assms(1)
    have "m' = \<lparr>sessions = (sessions m)(n \<mapsto> S),
                identityKeyToSessions = (identityKeyToSessions m)(k \<mapsto> handles_of m k @ [n])\<rparr>"
      by simp
    with assms(2) show ?thesis
      by (auto simp: consistent_def handles_of_def split: option.splits if_splits)
  qed
qed

lemma RemoveSession_consistent:
  assumes "RemoveSession S m = Inr m'" and "consistent m" and "indexed_only_under S m"
  shows "consistent m'"
proof (cases "SessionNonce S")
  case None
  with assms(1) have "m' = m"
    by (auto simp: RemoveSession_def split: option.splits)
  with assms(2) show ?thesis by simp
next
  case n: (Some n)
  show ?thesis
  proof (cases "PeerIdentityKey S")
    case None
    with n assms(1) have m': "m' = m\<lparr>sessions := (sessions m)(n := None)\<rparr>"
      by (simp add: RemoveSession_def)
    from n None assms(3)
    have "\<And>key ns. identityKeyToSessions m key = Some ns \<Longrightarrow> n \<notin> set ns"
      by (auto simp: indexed_only_under_def)
    with assms(2) m' show ?thesis by (auto simp: consistent_def)
  next
    case (Some k)
    from RemoveSession_both [OF n Some, of m] assms(1)
    have m': "m' = \<lparr>sessions = (sessions m)(n := None),
                identityKeyToSessions =
                  (identityKeyToSessions m)
                    (k := (if filter (\<lambda>str. str \<noteq> n) (handles_of m k) = [] then None
                           else Some (filter (\<lambda>str. str \<noteq> n) (handles_of m k))))\<rparr>"
      by simp
    from n Some assms(3)
    have other: "\<And>key ns. identityKeyToSessions m key = Some ns \<Longrightarrow> key \<noteq> k \<Longrightarrow> n \<notin> set ns"
      by (auto simp: indexed_only_under_def)
    show ?thesis
      unfolding consistent_def
    proof (intro allI impI ballI)
      fix key ns h
      assume idx: "identityKeyToSessions m' key = Some ns" and h: "h \<in> set ns"
      show "sessions m' h \<noteq> None"
      proof (cases "key = k")
        case True
        with idx m' have ns: "ns = filter (\<lambda>str. str \<noteq> n) (handles_of m k)"
          by (simp split: if_splits)
        with h have "h \<noteq> n" and "h \<in> set (handles_of m k)" by auto
        then obtain ns0 where "identityKeyToSessions m k = Some ns0" and "h \<in> set ns0"
          by (cases "identityKeyToSessions m k") (auto simp: handles_of_def)
        with assms(2) have "sessions m h \<noteq> None"
          unfolding consistent_def by blast
        with \<open>h \<noteq> n\<close> m' show ?thesis by simp
      next
        case False
        with idx m' have old: "identityKeyToSessions m key = Some ns" by simp
        with other False h have "h \<noteq> n" by blast
        moreover from assms(2) old h have "sessions m h \<noteq> None"
          by (auto simp: consistent_def)
        ultimately show ?thesis using m' by simp
      qed
    qed
  qed
qed

lemma perform_consistent:
  assumes "perform c m = Inr m'" and "consistent m"
    and "case c of Remove session \<Rightarrow> indexed_only_under session m | _ \<Rightarrow> True"
  shows "consistent m'"
  using assms
  by (cases c)
     (auto simp: UpdateSession_def intro: AddSession_consistent RemoveSession_consistent)

lemma run_consistent:
  "consistent m \<Longrightarrow> removals_matched cs m \<Longrightarrow> run cs m = Inr m' \<Longrightarrow> consistent m'"
proof (induction cs arbitrary: m)
  case Nil
  then show ?case by simp
next
  case (Cons c cs)
  from Cons.prems(3) obtain m1 where m1: "perform c m = Inr m1" and rest: "run cs m1 = Inr m'"
    by (auto split: sum.splits)
  from Cons.prems(2) m1
  have ok: "case c of Remove session \<Rightarrow> indexed_only_under session m | _ \<Rightarrow> True"
    and ok': "removals_matched cs m1"
    by simp_all
  from perform_consistent [OF m1 Cons.prems(1) ok] have "consistent m1" .
  from Cons.IH [OF this ok' rest] show ?case .
qed

subsection \<open>The memory model and the value model\<close>

lemma value_store_session_vars [simp]:
  "value_store (\<mu>\<lparr>session_vars := cs\<rparr>) = value_store \<mu>"
  by (simp add: value_store_def)

lemma loop_mem_step:
  assumes "sessions_mem \<mu> n = Some session"
  shows "getBestSession_mem_loop \<mu> best (n # ns)
           = getBestSession_mem_loop (\<mu>\<lparr>session_vars := session_vars \<mu> @ [session]\<rparr>) best ns
         \<or> getBestSession_mem_loop \<mu> best (n # ns)
           = getBestSession_mem_loop (\<mu>\<lparr>session_vars := session_vars \<mu> @ [session]\<rparr>)
               (Some (length (session_vars \<mu>))) ns"
  using assms by (cases best) (simp_all add: Let_def)

lemma loop_mem_frame:
  "sessions_mem (snd (getBestSession_mem_loop \<mu> best ns)) = sessions_mem \<mu>
   \<and> identityKeyToSessions_mem (snd (getBestSession_mem_loop \<mu> best ns))
       = identityKeyToSessions_mem \<mu>
   \<and> string_vars (snd (getBestSession_mem_loop \<mu> best ns)) = string_vars \<mu>
   \<and> (\<exists>new. session_vars (snd (getBestSession_mem_loop \<mu> best ns)) = session_vars \<mu> @ new)"
proof (induction ns arbitrary: \<mu> best)
  case Nil
  show ?case by simp
next
  case (Cons n ns)
  show ?case
  proof (cases "sessions_mem \<mu> n")
    case None
    then show ?thesis using Cons.IH [of \<mu> best] by simp
  next
    case (Some session)
    let ?\<mu> = "\<mu>\<lparr>session_vars := session_vars \<mu> @ [session]\<rparr>"
    have frame: "sessions_mem (snd (getBestSession_mem_loop ?\<mu> b' ns)) = sessions_mem \<mu>
        \<and> identityKeyToSessions_mem (snd (getBestSession_mem_loop ?\<mu> b' ns))
            = identityKeyToSessions_mem \<mu>
        \<and> string_vars (snd (getBestSession_mem_loop ?\<mu> b' ns)) = string_vars \<mu>
        \<and> (\<exists>new. session_vars (snd (getBestSession_mem_loop ?\<mu> b' ns))
                  = session_vars \<mu> @ new)" for b'
    proof -
      from Cons.IH [of ?\<mu> b'] obtain new where
        "sessions_mem (snd (getBestSession_mem_loop ?\<mu> b' ns)) = sessions_mem ?\<mu>"
        "identityKeyToSessions_mem (snd (getBestSession_mem_loop ?\<mu> b' ns))
           = identityKeyToSessions_mem ?\<mu>"
        "string_vars (snd (getBestSession_mem_loop ?\<mu> b' ns)) = string_vars ?\<mu>"
        "session_vars (snd (getBestSession_mem_loop ?\<mu> b' ns)) = session_vars ?\<mu> @ new"
        by blast
      then show ?thesis by simp
    qed
    from loop_mem_step [OF Some, of best ns] show ?thesis
    proof
      assume "getBestSession_mem_loop \<mu> best (n # ns) = getBestSession_mem_loop ?\<mu> best ns"
      then show ?thesis by (simp only: frame)
    next
      assume "getBestSession_mem_loop \<mu> best (n # ns)
                = getBestSession_mem_loop ?\<mu> (Some (length (session_vars \<mu>))) ns"
      then show ?thesis by (simp only: frame)
    qed
  qed
qed

lemma loop_mem_fresh:
  "getBestSession_mem_loop \<mu> best ns = (Some p, \<mu>')
     \<Longrightarrow> best = Some p \<or> length (session_vars \<mu>) \<le> p"
proof (induction ns arbitrary: \<mu> best)
  case Nil
  then show ?case by simp
next
  case (Cons n ns)
  show ?case
  proof (cases "sessions_mem \<mu> n")
    case None
    with Cons show ?thesis by simp
  next
    case (Some session)
    let ?\<mu> = "\<mu>\<lparr>session_vars := session_vars \<mu> @ [session]\<rparr>"
    from loop_mem_step [OF Some, of best ns] show ?thesis
    proof
      assume "getBestSession_mem_loop \<mu> best (n # ns) = getBestSession_mem_loop ?\<mu> best ns"
      with Cons.prems have "getBestSession_mem_loop ?\<mu> best ns = (Some p, \<mu>')" by simp
      from Cons.IH [OF this] show ?thesis by auto
    next
      assume "getBestSession_mem_loop \<mu> best (n # ns)
                = getBestSession_mem_loop ?\<mu> (Some (length (session_vars \<mu>))) ns"
      with Cons.prems
      have "getBestSession_mem_loop ?\<mu> (Some (length (session_vars \<mu>))) ns = (Some p, \<mu>')"
        by simp
      from Cons.IH [OF this] show ?thesis by auto
    qed
  qed
qed

lemma loop_mem_refines:
  assumes "case best of None \<Rightarrow> True | Some b \<Rightarrow> b < length (session_vars \<mu>)"
  shows "pointee (getBestSession_mem_loop \<mu> best ns)
           = getBestSession_loop (value_store \<mu>)
               (map_option (\<lambda>b. deref_session (string_vars \<mu>) (session_vars \<mu> ! b)) best) ns"
  using assms
proof (induction ns arbitrary: \<mu> best)
  case Nil
  then show ?case by (cases best) (simp_all add: pointee_def)
next
  case (Cons n ns)
  show ?case
  proof (cases "sessions_mem \<mu> n")
    case None
    then have v: "sessions (value_store \<mu>) n = None" by (simp add: value_store_def)
    from None v Cons.IH [OF Cons.prems] show ?thesis by simp
  next
    case (Some session)
    let ?\<mu> = "\<mu>\<lparr>session_vars := session_vars \<mu> @ [session]\<rparr>"
    let ?here = "length (session_vars \<mu>)"
    let ?d = "deref_session (string_vars \<mu>)"
    have v: "sessions (value_store \<mu>) n = Some (?d session)"
      using Some by (simp add: value_store_def)
    have here: "pointee (getBestSession_mem_loop ?\<mu> (Some ?here) ns)
                  = getBestSession_loop (value_store \<mu>) (Some (?d session)) ns"
      using Cons.IH [of ?\<mu> "Some ?here"] by simp
    show ?thesis
    proof (cases best)
      case None
      with Some v here show ?thesis by (simp add: Let_def)
    next
      case b: (Some b)
      with Cons.prems have lt: "b < length (session_vars \<mu>)" by simp
      have keep: "pointee (getBestSession_mem_loop ?\<mu> (Some b) ns)
                  = getBestSession_loop (value_store \<mu>) (Some (?d (session_vars \<mu> ! b))) ns"
        using Cons.IH [of ?\<mu> "Some b"] lt by (simp add: nth_append)
      have auth: "IsAuthenticated (?d r) = IsAuthenticated_mem r"
        and upd: "LastUpdate (?d r) = LastUpdate_mem r" for r
        by (simp_all add: deref_session_def)
      from Some v b lt here keep show ?thesis
        by (simp add: Let_def nth_append auth upd)
    qed
  qed
qed

lemma GetSession_mem_refines:
  "pointee (GetSession_mem identifier \<mu>) = GetSession identifier (value_store \<mu>)"
proof (cases "sessions_mem \<mu> identifier")
  case (Some session)
  then show ?thesis
    by (simp add: GetSession_mem_def GetSession_def pointee_def value_store_def)
next
  case None
  show ?thesis
  proof (cases "identityKeyToSessions_mem \<mu> identifier")
    case n: None
    with None show ?thesis
      by (simp add: GetSession_mem_def GetSession_def pointee_def value_store_def)
  next
    case (Some nonces)
    have "pointee (getBestSession_mem_loop \<mu> None nonces)
            = getBestSession_loop (value_store \<mu>) None nonces"
      using loop_mem_refines [of \<mu> None nonces] by simp
    with None Some show ?thesis
      by (simp add: GetSession_mem_def GetSession_def getBestSession_mem_def getBestSession_def
            value_store_def)
  qed
qed

lemma HasSession_mem_refines:
  "HasSession_mem identifier \<mu> = (HasSession identifier (value_store \<mu>), \<mu>)"
  by (simp add: HasSession_mem_def HasSession_def value_store_def split: option.splits)

lemma GetSession_mem_frame:
  "sessions_mem (snd (GetSession_mem identifier \<mu>)) = sessions_mem \<mu>
   \<and> identityKeyToSessions_mem (snd (GetSession_mem identifier \<mu>))
       = identityKeyToSessions_mem \<mu>
   \<and> string_vars (snd (GetSession_mem identifier \<mu>)) = string_vars \<mu>
   \<and> (\<exists>new. session_vars (snd (GetSession_mem identifier \<mu>)) = session_vars \<mu> @ new)"
proof (cases "sessions_mem \<mu> identifier")
  case (Some session)
  then show ?thesis by (simp add: GetSession_mem_def)
next
  case None
  show ?thesis
  proof (cases "identityKeyToSessions_mem \<mu> identifier")
    case n: None
    with None show ?thesis by (simp add: GetSession_mem_def)
  next
    case (Some nonces)
    with None have "GetSession_mem identifier \<mu> = getBestSession_mem_loop \<mu> None nonces"
      by (simp add: GetSession_mem_def getBestSession_mem_def)
    then show ?thesis by (simp only: loop_mem_frame)
  qed
qed

lemma GetSession_mem_fresh:
  assumes "GetSession_mem identifier \<mu> = (Some p, \<mu>')"
  shows "length (session_vars \<mu>) \<le> p"
proof (cases "sessions_mem \<mu> identifier")
  case (Some session)
  with assms show ?thesis by (simp add: GetSession_mem_def)
next
  case None
  show ?thesis
  proof (cases "identityKeyToSessions_mem \<mu> identifier")
    case n: None
    with None assms show ?thesis by (simp add: GetSession_mem_def)
  next
    case (Some nonces)
    with None assms have "getBestSession_mem_loop \<mu> None nonces = (Some p, \<mu>')"
      by (simp add: GetSession_mem_def getBestSession_mem_def)
    from loop_mem_fresh [OF this] show ?thesis by simp
  qed
qed

lemma value_store_frame:
  "sessions_mem \<mu>' = sessions_mem \<mu> \<Longrightarrow> identityKeyToSessions_mem \<mu>' = identityKeyToSessions_mem \<mu>
     \<Longrightarrow> string_vars \<mu>' = string_vars \<mu> \<Longrightarrow> value_store \<mu>' = value_store \<mu>"
  by (simp add: value_store_def)

lemma GetSession_mem_value_store:
  "value_store (snd (GetSession_mem identifier \<mu>)) = value_store \<mu>"
  by (rule value_store_frame) (simp_all add: GetSession_mem_frame)

lemma value_store_assign_fields: "value_store (assign_fields p f \<mu>) = value_store \<mu>"
  by (simp add: assign_fields_def)

lemma mem_alice_get:
  "GetSession_mem ''alice'' mem_alice =
     (Some 0, mem_alice\<lparr>session_vars := [\<lparr>SessionNonce_ptr = Some 0, PeerIdentityKey_ptr = Some 1,
                                  IsAuthenticated_mem = True, LastUpdate_mem = 1, Other_mem = ()\<rparr>]\<rparr>)"
  by (simp add: GetSession_mem_def getBestSession_mem_def mem_alice_def)

section \<open>Failure of the write operations\<close>

text \<open>
  Claim C1 says that no operation ever fails, and that AddSession of a session with a
  peerIdentityKey and no sessionNonce succeeds. On the code that call dereferences the nil
  sessionNonce in \<^verbatim>\<open>addSessionByIdentityKey\<close> and panics: on the empty store,
  AddSession of a session with identity \<open>alice\<close> and no handle ends in a nil pointer
  dereference. (By \<open>AddSession_panics_iff\<close> and \<open>RemoveSession_panics_iff\<close> these are the
  only failures: AddSession fails exactly for a session with an identity and no handle,
  RemoveSession exactly for such a session whose identity has an entry.)
\<close>

theorem AddSession_nil_nonce_panics:
  "AddSession \<lparr>SessionNonce = None, PeerIdentityKey = Some ''alice'',
                IsAuthenticated = False, LastUpdate = 0, Other = ()\<rparr>
     NewSessionManager = Inl NilPointerDereference"
  by (simp add: AddSession_def addSessionByIdentityKey_def NewSessionManager_def)

section \<open>Adding the same session twice\<close>

text \<open>
  Claim C2 says that AddSession is idempotent and that the handle-set of an identity never
  holds the same sessionNonce twice. The code appends the handle on every call, whether or
  not the handle-set holds it already: after AddSession of \<open>s_alice\<close> the handle-set of
  \<open>alice\<close> is \<open>[n1]\<close>, after a second AddSession of the same session, or after an
  UpdateSession of it, the handle-set is \<open>[n1, n1]\<close>, though \<open>alice\<close> has one session.
\<close>

theorem AddSession_twice_duplicates_handle:
  "run [Add s_alice] NewSessionManager
     = Inr \<lparr>sessions = [''n1'' \<mapsto> s_alice], identityKeyToSessions = [''alice'' \<mapsto> [''n1'']]\<rparr>
   \<and> run [Add s_alice, Add s_alice] NewSessionManager
     = Inr \<lparr>sessions = [''n1'' \<mapsto> s_alice],
            identityKeyToSessions = [''alice'' \<mapsto> [''n1'', ''n1'']]\<rparr>
   \<and> run [Add s_alice, Update s_alice] NewSessionManager
     = Inr \<lparr>sessions = [''n1'' \<mapsto> s_alice],
            identityKeyToSessions = [''alice'' \<mapsto> [''n1'', ''n1'']]\<rparr>"
  by (simp add: s_alice_def ops_defs)

section \<open>Consistency of the indexes\<close>

text \<open>
  Claim C3 says that in every store reachable from the empty one by AddSession,
  UpdateSession and RemoveSession calls, every handle of a handle-set has an entry in the
  handle index. As stated it fails: add the session of handle \<open>n1\<close> under identity
  \<open>alice\<close>, update it with identity \<open>bob\<close>, remove it as the caller then knows it. The
  removal cleans the handle index and the handle-set of \<open>bob\<close>; \<open>n1\<close> stays in the
  handle-set of \<open>alice\<close> without a record.
\<close>

theorem index_consistency_counterexample:
  "run [Add s_alice, Update s_bob, Remove s_bob] NewSessionManager
     = Inr \<lparr>sessions = Map.empty, identityKeyToSessions = [''alice'' \<mapsto> [''n1'']]\<rparr>
   \<and> \<not> consistent \<lparr>sessions = Map.empty, identityKeyToSessions = [''alice'' \<mapsto> [''n1'']]\<rparr>"
  by (simp add: s_alice_def s_bob_def ops_defs consistent_def fun_eq_iff)

text \<open>
  Claim C3, amended: in every store reached from the empty one by a sequence of
  AddSession, UpdateSession and RemoveSession calls that all return, where each
  RemoveSession is called with a session whose sessionNonce occurs in no handle-set but
  the one of the session's own peerIdentityKey, every handle of a handle-set has an entry
  in the handle index. And RemoveSession of a session with sessionNonce \<open>n\<close> and
  peerIdentityKey \<open>k\<close> returns on any store, deletes the entry of \<open>n\<close> and nothing else
  from the handle index, removes every occurrence of \<open>n\<close> from the handle-set of \<open>k\<close>
  (deleting the entry of \<open>k\<close> when no handle is left), and leaves the handle-set of every
  other identity as it was.
\<close>

theorem index_consistency_reachable:
  "(removals_matched cs NewSessionManager \<longrightarrow> run cs NewSessionManager = Inr m
      \<longrightarrow> consistent m)
   \<and> (SessionNonce S = Some n \<longrightarrow> PeerIdentityKey S = Some k \<longrightarrow>
        (\<exists>m'. RemoveSession S m0 = Inr m'
           \<and> sessions m' = (sessions m0)(n := None)
           \<and> identityKeyToSessions m' k
               = (if filter (\<lambda>h. h \<noteq> n) (handles_of m0 k) = [] then None
                  else Some (filter (\<lambda>h. h \<noteq> n) (handles_of m0 k)))
           \<and> (\<forall>key. key \<noteq> k
                 \<longrightarrow> identityKeyToSessions m' key = identityKeyToSessions m0 key)))"
proof (intro conjI impI)
  assume "removals_matched cs NewSessionManager" and "run cs NewSessionManager = Inr m"
  moreover have "consistent (NewSessionManager :: 'a SessionManager)"
    by (rule consistent_New)
  ultimately show "consistent m"
    using run_consistent by blast
next
  assume n: "SessionNonce S = Some n" and k: "PeerIdentityKey S = Some k"
  show "\<exists>m'. RemoveSession S m0 = Inr m'
           \<and> sessions m' = (sessions m0)(n := None)
           \<and> identityKeyToSessions m' k
               = (if filter (\<lambda>h. h \<noteq> n) (handles_of m0 k) = [] then None
                  else Some (filter (\<lambda>h. h \<noteq> n) (handles_of m0 k)))
           \<and> (\<forall>key. key \<noteq> k
                 \<longrightarrow> identityKeyToSessions m' key = identityKeyToSessions m0 key)"
    unfolding RemoveSession_both [OF n k] by simp
qed

text \<open>
  The amended claim on a sequence that leaves one of the two sessions of \<open>alice\<close>, and on
  the removal that ends it.
\<close>

theorem index_consistency_witness:
  "removals_matched [Add s_alice, Add early_authenticated, Remove s_alice] NewSessionManager
   \<and> run [Add s_alice, Add early_authenticated, Remove s_alice] NewSessionManager
       = Inr \<lparr>sessions = [''n2'' \<mapsto> early_authenticated],
              identityKeyToSessions = [''alice'' \<mapsto> [''n2'']]\<rparr>
   \<and> consistent \<lparr>sessions = [''n2'' \<mapsto> early_authenticated],
                  identityKeyToSessions = [''alice'' \<mapsto> [''n2'']]\<rparr>
   \<and> (\<exists>m'. RemoveSession s_alice
             \<lparr>sessions = [''n1'' \<mapsto> s_alice, ''n2'' \<mapsto> early_authenticated],
              identityKeyToSessions = [''alice'' \<mapsto> [''n1'', ''n2'']]\<rparr> = Inr m'
          \<and> sessions m' ''n1'' = None
          \<and> sessions m' ''n2'' = Some early_authenticated
          \<and> identityKeyToSessions m' ''alice'' = Some [''n2''])"
proof -
  let ?before = "\<lparr>sessions = [''n1'' \<mapsto> s_alice, ''n2'' \<mapsto> early_authenticated],
                  identityKeyToSessions = [''alice'' \<mapsto> [''n1'', ''n2'']]\<rparr>"
  have r: "run [Add s_alice, Add early_authenticated, Remove s_alice] NewSessionManager
             = Inr \<lparr>sessions = [''n2'' \<mapsto> early_authenticated],
                    identityKeyToSessions = [''alice'' \<mapsto> [''n2'']]\<rparr>"
    by (simp add: s_alice_def early_authenticated_def ops_defs fun_eq_iff)
  have g: "removals_matched [Add s_alice, Add early_authenticated, Remove s_alice]
             NewSessionManager"
    by (simp add: s_alice_def early_authenticated_def ops_defs indexed_only_under_def)
  have a: "SessionNonce s_alice = Some ''n1''" and b: "PeerIdentityKey s_alice = Some ''alice''"
    by (simp_all add: s_alice_def)
  note inst = index_consistency_reachable
    [of "[Add s_alice, Add early_authenticated, Remove s_alice]"
        "\<lparr>sessions = [''n2'' \<mapsto> early_authenticated],
          identityKeyToSessions = [''alice'' \<mapsto> [''n2'']]\<rparr>"
        s_alice "''n1''" "''alice''" ?before]
  from inst g r have c: "consistent \<lparr>sessions = [''n2'' \<mapsto> early_authenticated],
                                   identityKeyToSessions = [''alice'' \<mapsto> [''n2'']]\<rparr>"
    by blast
  from inst a b obtain m' where
    "RemoveSession s_alice ?before = Inr m'"
    "sessions m' = (sessions ?before)(''n1'' := None)"
    "identityKeyToSessions m' ''alice''
       = (if filter (\<lambda>h. h \<noteq> ''n1'') (handles_of ?before ''alice'') = [] then None
          else Some (filter (\<lambda>h. h \<noteq> ''n1'') (handles_of ?before ''alice'')))"
    by blast
  then have "RemoveSession s_alice ?before = Inr m'
          \<and> sessions m' ''n1'' = None
          \<and> sessions m' ''n2'' = Some early_authenticated
          \<and> identityKeyToSessions m' ''alice'' = Some [''n2'']"
    by (simp add: handles_of_def)
  then have "\<exists>m'. RemoveSession s_alice ?before = Inr m'
          \<and> sessions m' ''n1'' = None
          \<and> sessions m' ''n2'' = Some early_authenticated
          \<and> identityKeyToSessions m' ''alice'' = Some [''n2'']"
    by blast
  with g r c show ?thesis by blast
qed

section \<open>The best session of an identity\<close>

text \<open>
  Claim C4 says that for any two sessions stored under one identity, the first
  unauthenticated and updated later, the second authenticated, GetSession of the identity
  returns the second. As stated it fails when the handle of the first session is the same
  string as the identity key: GetSession consults the handle index first and returns the
  unauthenticated session.
\<close>

theorem authenticated_outranks_counterexample:
  "map_sum id (GetSession ''alice'')
     (run [Add late_unauthenticated_named_alice, Add early_authenticated] NewSessionManager)
     = Inr (Some late_unauthenticated_named_alice)
   \<and> late_unauthenticated_named_alice \<noteq> early_authenticated"
  by (simp add: late_unauthenticated_named_alice_def early_authenticated_def ops_defs
        GetSession_def)

text \<open>
  Claim C4, amended: when the handle-set of identity \<open>k\<close> consists of the handles of two
  stored sessions, \<open>S1\<close> unauthenticated and \<open>S2\<close> authenticated, and \<open>k\<close> is not itself a
  key of the handle index, GetSession of \<open>k\<close> returns \<open>S2\<close>, whatever the two timestamps
  and whatever the order of the handles.
\<close>

theorem authenticated_outranks_unauthenticated:
  assumes "sessions m n1 = Some S1" and "sessions m n2 = Some S2"
    and "identityKeyToSessions m k = Some nonces" and "set nonces = {n1, n2}"
    and "\<not> IsAuthenticated S1" and "IsAuthenticated S2"
    and "sessions m k = None"
  shows "GetSession k m = Some S2"
proof -
  have G: "GetSession k m = getBestSession_loop m None nonces"
    using assms(3,7) by (simp add: GetSession_def getBestSession_def)
  have "getBestSession_loop m None nonces \<noteq> None"
    using assms(2,4) by (auto simp: loop_None_iff)
  then obtain r where r: "getBestSession_loop m None nonces = Some r" by auto
  from loop_member [OF r] assms(1,2,4) have "r = S1 \<or> r = S2" by auto
  moreover have "n2 \<in> set nonces" using assms(4) by simp
  from loop_maximal [OF r this assms(2)] have "\<not> outranks S2 r" .
  with assms(5,6) have "r \<noteq> S1" by (auto simp: outranks_def)
  ultimately show ?thesis using G r by simp
qed

text \<open>
  The amended claim on the store that two AddSession calls build: the unauthenticated
  session is the later one and comes first in the handle-set.
\<close>

theorem authenticated_outranks_witness:
  "run [Add late_unauthenticated, Add early_authenticated] NewSessionManager = Inr two_for_alice
   \<and> LastUpdate early_authenticated < LastUpdate late_unauthenticated
   \<and> GetSession ''alice'' two_for_alice = Some early_authenticated"
proof -
  have "GetSession ''alice'' two_for_alice = Some early_authenticated"
    by (rule authenticated_outranks_unauthenticated
          [where ?n1.0 = "''n3''" and ?n2.0 = "''n2''" and ?S1.0 = late_unauthenticated
             and nonces = "[''n3'', ''n2'']"])
       (auto simp add: two_for_alice_def late_unauthenticated_def early_authenticated_def)
  then show ?thesis
    by (simp add: two_for_alice_def late_unauthenticated_def early_authenticated_def ops_defs)
qed

text \<open>
  Claim C5: the selection is a left-to-right fold over the handle-set. The loop of
  \<^verbatim>\<open>getBestSession\<close> computes what the specification describes: the candidates are the
  records of the handles that resolve, in the order of the handle-set, and they are folded
  with the pairwise preference in which, at equal authentication status, the strictly later
  \<open>lastUpdate\<close> wins and at equal timestamps the earlier-encountered candidate stays.
\<close>

theorem getBestSession_is_stable_fold: "getBestSession m handles = spec_best m handles"
proof -
  have "getBestSession m handles = getBestSession_loop m None handles"
    by (simp add: getBestSession_def)
  also have "\<dots> = spec_best m handles"
    by (rule loop_None_fold)
  finally show ?thesis .
qed

section \<open>Lookup order and absence\<close>

text \<open>
  Claim C6: GetSession consults the handle index first and returns the session found there;
  otherwise it takes the identifier as an identity key and returns the best session among
  the handles that resolve, the one the selection of the specification picks; it returns
  absence exactly when the identifier is in neither index, or it is (only) an identity key
  and every handle of its handle-set fails to resolve.
\<close>

theorem GetSession_lookup_order:
  "(sessions m identifier = Some s \<longrightarrow> GetSession identifier m = Some s)
   \<and> (sessions m identifier = None \<longrightarrow> identityKeyToSessions m identifier = Some nonces
        \<longrightarrow> GetSession identifier m = spec_best m nonces)
   \<and> (GetSession identifier m = None
        \<longleftrightarrow> sessions m identifier = None
            \<and> (identityKeyToSessions m identifier = None
                 \<or> (\<exists>handles. identityKeyToSessions m identifier = Some handles
                        \<and> (\<forall>nonce\<in>set handles. sessions m nonce = None))))"
proof (intro conjI impI)
  assume "sessions m identifier = Some s"
  then show "GetSession identifier m = Some s" by (simp add: GetSession_def)
next
  assume "sessions m identifier = None" and "identityKeyToSessions m identifier = Some nonces"
  then have "GetSession identifier m = getBestSession_loop m None nonces"
    by (simp add: GetSession_def getBestSession_def)
  then show "GetSession identifier m = spec_best m nonces"
    by (simp only: loop_None_fold)
next
  show "GetSession identifier m = None
        \<longleftrightarrow> sessions m identifier = None
            \<and> (identityKeyToSessions m identifier = None
                 \<or> (\<exists>handles. identityKeyToSessions m identifier = Some handles
                        \<and> (\<forall>nonce\<in>set handles. sessions m nonce = None)))"
    by (cases "sessions m identifier"; cases "identityKeyToSessions m identifier")
       (simp_all add: GetSession_def getBestSession_def loop_None_iff)
qed

text \<open>
  The cases on two stores: a handle; an identity with two live handles, where the later,
  unauthenticated session comes first and the authenticated one is returned; an identity
  whose handles are all stale; an unknown identifier.
\<close>

theorem GetSession_lookup_order_witness:
  "GetSession ''n2'' stale_for_carol = Some early_authenticated
   \<and> GetSession ''alice'' two_for_alice = Some early_authenticated
   \<and> GetSession ''n3'' two_for_alice = Some late_unauthenticated
   \<and> GetSession ''carol'' stale_for_carol = None
   \<and> GetSession ''dave'' stale_for_carol = None"
proof -
  have a: "GetSession ''n2'' stale_for_carol = Some early_authenticated"
    using GetSession_lookup_order [of stale_for_carol "''n2''" early_authenticated]
    by (simp add: stale_for_carol_def)
  have "spec_best two_for_alice [''n3'', ''n2''] = Some early_authenticated"
    by (simp add: spec_best_def spec_candidates_def spec_prefer_def two_for_alice_def
          late_unauthenticated_def early_authenticated_def)
  then have b: "GetSession ''alice'' two_for_alice = Some early_authenticated"
    using GetSession_lookup_order [of two_for_alice "''alice''" _ "[''n3'', ''n2'']"]
    by (simp add: two_for_alice_def)
  have b': "GetSession ''n3'' two_for_alice = Some late_unauthenticated"
    using GetSession_lookup_order [of two_for_alice "''n3''" late_unauthenticated]
    by (simp add: two_for_alice_def)
  have c: "GetSession ''carol'' stale_for_carol = None"
    using GetSession_lookup_order [of stale_for_carol "''carol''"]
    by (simp add: stale_for_carol_def)
  have d: "GetSession ''dave'' stale_for_carol = None"
    using GetSession_lookup_order [of stale_for_carol "''dave''"]
    by (simp add: stale_for_carol_def)
  from a b b' c d show ?thesis by simp
qed

section \<open>Removal\<close>

text \<open>
  Claim C7 says that after RemoveSession of the only session of an identity, HasSession
  is false for the identity key and for the handle. As stated it fails when the identity
  key is also the handle of another stored session: \<open>s_alice\<close> is the only session of
  \<open>alice\<close>, a session of \<open>bob\<close> has the handle \<open>alice\<close>, and after the removal
  HasSession of \<open>alice\<close> is still true.
\<close>

theorem RemoveSession_only_session_counterexample:
  "run [Add s_handle_alice, Add s_alice] NewSessionManager
     = Inr \<lparr>sessions = [''alice'' \<mapsto> s_handle_alice, ''n1'' \<mapsto> s_alice],
            identityKeyToSessions = [''bob'' \<mapsto> [''alice''], ''alice'' \<mapsto> [''n1'']]\<rparr>
   \<and> map_sum id (HasSession ''alice'')
       (RemoveSession s_alice
          \<lparr>sessions = [''alice'' \<mapsto> s_handle_alice, ''n1'' \<mapsto> s_alice],
           identityKeyToSessions = [''bob'' \<mapsto> [''alice''], ''alice'' \<mapsto> [''n1'']]\<rparr>)
       = Inr True"
  by (simp add: s_handle_alice_def s_alice_def ops_defs HasSession_def)

text \<open>
  Claim C7, amended: let \<open>S\<close> have sessionNonce \<open>n\<close> and peerIdentityKey \<open>k\<close>, and let the
  handle-set of \<open>k\<close> hold \<open>n\<close> and nothing else. Then RemoveSession of \<open>S\<close> returns, and
  afterwards \<open>k\<close> has no entry in the identity index and \<open>n\<close> none in the handle index;
  HasSession of \<open>k\<close> is false provided \<open>k\<close> is not also the handle of another stored
  session, and HasSession of \<open>n\<close> is false provided \<open>n\<close> is not also another key of the
  identity index.
\<close>

theorem RemoveSession_only_session:
  assumes "SessionNonce S = Some n" and "PeerIdentityKey S = Some k"
    and "identityKeyToSessions m k = Some nonces" and "set nonces = {n}"
  shows "\<exists>m'. RemoveSession S m = Inr m'
           \<and> identityKeyToSessions m' k = None \<and> sessions m' n = None
           \<and> ((k \<noteq> n \<longrightarrow> sessions m k = None) \<longrightarrow> \<not> HasSession k m')
           \<and> ((n \<noteq> k \<longrightarrow> identityKeyToSessions m n = None) \<longrightarrow> \<not> HasSession n m')"
proof -
  from assms(3,4) have f: "filter (\<lambda>str. str \<noteq> n) (handles_of m k) = []"
    by (auto simp: handles_of_def filter_empty_conv)
  from RemoveSession_both [OF assms(1,2), of m] f
  have r: "RemoveSession S m
             = Inr \<lparr>sessions = (sessions m)(n := None),
                    identityKeyToSessions = (identityKeyToSessions m)(k := None)\<rparr>"
    by simp
  show ?thesis
    unfolding r by (auto simp: HasSession_def split: option.splits)
qed

text \<open>
  The amended claim on the store that holds \<open>s_alice\<close> alone, where both provisos hold,
  and on the store of the counterexample, where the entries are deleted all the same.
\<close>

theorem RemoveSession_only_session_witness:
  "(\<exists>m'. RemoveSession s_alice
              \<lparr>sessions = [''n1'' \<mapsto> s_alice],
               identityKeyToSessions = [''alice'' \<mapsto> [''n1'']]\<rparr>
              = Inr m'
           \<and> identityKeyToSessions m' ''alice'' = None \<and> sessions m' ''n1'' = None
           \<and> \<not> HasSession ''alice'' m' \<and> \<not> HasSession ''n1'' m')
   \<and> (\<exists>m'. RemoveSession s_alice
              \<lparr>sessions = [''alice'' \<mapsto> s_handle_alice, ''n1'' \<mapsto> s_alice],
               identityKeyToSessions = [''bob'' \<mapsto> [''alice''], ''alice'' \<mapsto> [''n1'']]\<rparr>
              = Inr m'
           \<and> identityKeyToSessions m' ''alice'' = None \<and> sessions m' ''n1'' = None
           \<and> \<not> HasSession ''n1'' m')"
proof -
  have a: "SessionNonce s_alice = Some ''n1''" and b: "PeerIdentityKey s_alice = Some ''alice''"
    by (simp_all add: s_alice_def)
  have one: "\<exists>m'. RemoveSession s_alice
              \<lparr>sessions = [''n1'' \<mapsto> s_alice],
               identityKeyToSessions = [''alice'' \<mapsto> [''n1'']]\<rparr>
              = Inr m'
           \<and> identityKeyToSessions m' ''alice'' = None \<and> sessions m' ''n1'' = None
           \<and> \<not> HasSession ''alice'' m' \<and> \<not> HasSession ''n1'' m'"
    using RemoveSession_only_session [OF a b, where nonces = "[''n1'']"
            and m = "\<lparr>sessions = [''n1'' \<mapsto> s_alice],
                       identityKeyToSessions = [''alice'' \<mapsto> [''n1'']]\<rparr>"]
    by simp
  have two: "\<exists>m'. RemoveSession s_alice
              \<lparr>sessions = [''alice'' \<mapsto> s_handle_alice, ''n1'' \<mapsto> s_alice],
               identityKeyToSessions = [''bob'' \<mapsto> [''alice''], ''alice'' \<mapsto> [''n1'']]\<rparr>
              = Inr m'
           \<and> identityKeyToSessions m' ''alice'' = None \<and> sessions m' ''n1'' = None
           \<and> \<not> HasSession ''n1'' m'"
    using RemoveSession_only_session [OF a b, where nonces = "[''n1'']"
            and m = "\<lparr>sessions = [''alice'' \<mapsto> s_handle_alice, ''n1'' \<mapsto> s_alice],
                       identityKeyToSessions
                         = [''bob'' \<mapsto> [''alice''], ''alice'' \<mapsto> [''n1'']]\<rparr>"]
    by simp
  from one two show ?thesis by blast
qed

section \<open>Reading\<close>

text \<open>
  Claim C9 says that GetSession and HasSession leave both indexes unchanged and that, the
  returned pointer leading to a copy, mutating the record through it changes no session
  retrieved later. As stated it fails: the copy is a copy of the struct, and its
  \<^verbatim>\<open>SessionNonce\<close> field points to the same string as the stored record's. The caller gets
  the session of \<open>alice\<close> (a pointer to the new variable 0, whose record reads as
  \<open>s_alice\<close>), assigns \<open>zzz\<close> to the string its \<^verbatim>\<open>SessionNonce\<close> points to, and asks
  again: the session now retrieved has the sessionNonce \<open>zzz\<close>.
\<close>

theorem shallow_copy_counterexample:
  "pointee (GetSession_mem ''alice'' mem_alice) = Some s_alice
   \<and> fst (GetSession_mem ''alice'' mem_alice) = Some 0
   \<and> map_sum id (\<lambda>\<mu>. pointee (GetSession_mem ''alice'' \<mu>))
       (assign_nonce_pointee 0 ''zzz'' (snd (GetSession_mem ''alice'' mem_alice)))
       = Inr (Some (s_alice\<lparr>SessionNonce := Some ''zzz''\<rparr>))
   \<and> s_alice\<lparr>SessionNonce := Some ''zzz''\<rparr> \<noteq> s_alice"
  by (simp add: mem_alice_def assign_nonce_pointee_def GetSession_mem_def getBestSession_mem_def
        pointee_def deref_session_def s_alice_def Let_def)

text \<open>
  Claim C9, amended: GetSession and HasSession leave the handle index and the identity
  index unchanged; GetSession returns the record that the value model returns, through a
  pointer to a variable that did not exist before the call; and assigning to fields of the
  record through the returned pointer changes no session retrieved later by GetSession and
  no later answer of HasSession.
\<close>

theorem reads_keep_the_indexes:
  "sessions_mem (snd (GetSession_mem identifier \<mu>)) = sessions_mem \<mu>
   \<and> identityKeyToSessions_mem (snd (GetSession_mem identifier \<mu>))
       = identityKeyToSessions_mem \<mu>
   \<and> snd (HasSession_mem identifier \<mu>) = \<mu>
   \<and> pointee (GetSession_mem identifier \<mu>) = GetSession identifier (value_store \<mu>)
   \<and> (GetSession_mem identifier \<mu> = (Some p, \<mu>')
        \<longrightarrow> length (session_vars \<mu>) \<le> p
            \<and> pointee (GetSession_mem later (assign_fields p f \<mu>'))
                = pointee (GetSession_mem later \<mu>)
            \<and> fst (HasSession_mem later (assign_fields p f \<mu>'))
                = fst (HasSession_mem later \<mu>))"
proof (intro conjI impI)
  show "sessions_mem (snd (GetSession_mem identifier \<mu>)) = sessions_mem \<mu>"
    and "identityKeyToSessions_mem (snd (GetSession_mem identifier \<mu>))
           = identityKeyToSessions_mem \<mu>"
    using GetSession_mem_frame [of "identifier" \<mu>] by simp_all
  show "snd (HasSession_mem identifier \<mu>) = \<mu>"
    by (simp add: HasSession_mem_refines)
  show "pointee (GetSession_mem identifier \<mu>) = GetSession identifier (value_store \<mu>)"
    by (rule GetSession_mem_refines)
next
  assume g: "GetSession_mem identifier \<mu> = (Some p, \<mu>')"
  then show "length (session_vars \<mu>) \<le> p" by (rule GetSession_mem_fresh)
  from g have "\<mu>' = snd (GetSession_mem identifier \<mu>)" by simp
  then have v: "value_store (assign_fields p f \<mu>') = value_store \<mu>"
    by (simp only: value_store_assign_fields GetSession_mem_value_store)
  show "pointee (GetSession_mem later (assign_fields p f \<mu>')) = pointee (GetSession_mem later \<mu>)"
    by (simp only: GetSession_mem_refines v)
  show "fst (HasSession_mem later (assign_fields p f \<mu>')) = fst (HasSession_mem later \<mu>)"
    by (simp add: HasSession_mem_refines v)
qed

text \<open>
  The caller gets the session of \<open>alice\<close>, clears \<open>IsAuthenticated\<close> and sets
  \<open>SessionNonce\<close> to nil in the record it was given, and asks again.
\<close>

theorem reads_keep_the_indexes_witness:
  "GetSession_mem ''alice'' mem_alice =
     (Some 0, mem_alice\<lparr>session_vars := [\<lparr>SessionNonce_ptr = Some 0, PeerIdentityKey_ptr = Some 1,
                                  IsAuthenticated_mem = True, LastUpdate_mem = 1, Other_mem = ()\<rparr>]\<rparr>)
   \<and> pointee (GetSession_mem ''alice''
        (assign_fields 0 (\<lambda>r. r\<lparr>IsAuthenticated_mem := False, SessionNonce_ptr := None\<rparr>)
           (mem_alice\<lparr>session_vars := [\<lparr>SessionNonce_ptr = Some 0, PeerIdentityKey_ptr = Some 1,
                                  IsAuthenticated_mem = True, LastUpdate_mem = 1, Other_mem = ()\<rparr>]\<rparr>)))
       = Some s_alice"
proof -
  have p: "pointee (GetSession_mem ''alice'' mem_alice) = Some s_alice"
    by (simp add: mem_alice_def GetSession_mem_def getBestSession_mem_def pointee_def
          deref_session_def s_alice_def Let_def)
  from reads_keep_the_indexes [of "''alice''" mem_alice 0 _ "''alice''"
         "\<lambda>r. r\<lparr>IsAuthenticated_mem := False, SessionNonce_ptr := None\<rparr>"] mem_alice_get p
  show ?thesis by simp
qed

section \<open>Removal after repeated adding\<close>




end
